theory Spec2Isabelle
  imports Main "HOL-Library.Sublist"
begin

section \<open>The PowerPoint generator page (streamlit_integration.py)\<close>

text \<open>
  The page is a script that runs top to bottom on every interaction. The model follows the
  script: the account selector (lines 50-85), the account details (lines 90-98), the manual
  override (lines 102-109), the generate button (lines 116-121) and the generation handler
  (lines 124-209). A Python \<open>str\<close> is a \<^typ>\<open>string\<close> whose characters are the code
  points below 256; the markers the script searches for are ASCII. A call of \<open>st\<close> puts
  its widget on the page and does not raise.
\<close>

subsection \<open>Python exceptions\<close>

text \<open>
  \<open>except Exception\<close> catches the instances of \<open>Exception\<close>; an exception that derives
  from \<open>BaseException\<close> only (\<open>KeyboardInterrupt\<close>, \<open>SystemExit\<close>) passes through it.
  An exception carries the text \<open>str(e)\<close> that the page prints.
\<close>

datatype exn_class = Exception_class | BaseException_only

datatype exn = Exn (class_of: exn_class) (str_of: string)

definition isinstance_Exception :: "exn \<Rightarrow> bool" where
  "isinstance_Exception e = (class_of e = Exception_class)"

definition index_error :: exn where
  "index_error = Exn Exception_class ''list index out of range''"

definition name_error :: "string \<Rightarrow> exn" where
  "name_error v = Exn Exception_class (''name '' @ [CHR 0x27] @ v @ [CHR 0x27] @ '' is not defined'')"

definition value_error :: exn where
  "value_error = Exn Exception_class ''empty separator''"

definition iloc_error :: exn where
  "iloc_error = Exn Exception_class ''single positional indexer is out-of-bounds''"

definition and_then :: "exn + 'a \<Rightarrow> ('a \<Rightarrow> exn + 'b) \<Rightarrow> exn + 'b" where
  "and_then r k = (case r of Inl e \<Rightarrow> Inl e | Inr a \<Rightarrow> k a)"

subsection \<open>The string operations the script uses\<close>

text \<open>\<open>s.find(sub)\<close>: the index of the first occurrence of \<open>sub\<close> in \<open>s\<close>.\<close>

fun py_find :: "string \<Rightarrow> string \<Rightarrow> nat option" where
  "py_find sub [] = (if sub = [] then Some 0 else None)"
| "py_find sub (c # cs) =
     (if prefix sub (c # cs) then Some 0 else map_option Suc (py_find sub cs))"

text \<open>\<open>sub in s\<close>.\<close>

definition contains :: "string \<Rightarrow> string \<Rightarrow> bool" where
  "contains sub s = (py_find sub s \<noteq> None)"

text \<open>
  \<open>s.split(sep)\<close> cuts \<open>s\<close> at the occurrences of \<open>sep\<close>, found from left to right
  without overlap; an empty separator raises \<open>ValueError\<close>.
\<close>

function split_pieces :: "string \<Rightarrow> string \<Rightarrow> string list" where
  "split_pieces sep s =
     (case py_find sep s of
        None \<Rightarrow> [s]
      | Some i \<Rightarrow>
          take i s # (if sep = [] then [] else split_pieces sep (drop (i + length sep) s)))"
  by pat_completeness auto
termination
proof (relation "measure (\<lambda>(sep, s). length s)")
  show "wf (measure (\<lambda>(sep, s). length s))" by simp
next
  fix sep s :: string and i :: nat
  assume found: "py_find sep s = Some i" and sep: "sep \<noteq> []"
  from found sep have "s \<noteq> []" by (cases s) auto
  with sep show "((sep, drop (i + length sep) s), (sep, s)) \<in> measure (\<lambda>(sep, s). length s)"
    by simp
qed

definition py_split :: "string \<Rightarrow> string \<Rightarrow> exn + string list" where
  "py_split sep s = (if sep = [] then Inl value_error else Inr (split_pieces sep s))"

text \<open>\<open>xs[i]\<close> for a non-negative index: \<open>IndexError\<close> beyond the end.\<close>

definition subscript :: "'a list \<Rightarrow> nat \<Rightarrow> exn + 'a" where
  "subscript xs i = (if i < length xs then Inr (xs ! i) else Inl index_error)"

text \<open>\<open>s.lower()\<close>, on the code points below 256: A-Z and the accented capitals.\<close>

definition lower_char :: "char \<Rightarrow> char" where
  "lower_char c =
     (let n = (of_char c :: nat)
      in if (65 \<le> n \<and> n \<le> 90) \<or> (192 \<le> n \<and> n \<le> 222 \<and> n \<noteq> 215)
         then char_of (n + 32) else c)"

definition py_lower :: "string \<Rightarrow> string" where
  "py_lower s = map lower_char s"

text \<open>
  \<open>s.strip()\<close> removes the leading and trailing characters for which \<open>str.isspace\<close>
  holds: tab to carriage return, the four separators 0x1C-0x1F, the space, 0x85 and 0xA0.
\<close>

definition is_space :: "char \<Rightarrow> bool" where
  "is_space c =
     (let n = (of_char c :: nat)
      in (9 \<le> n \<and> n \<le> 13) \<or> (28 \<le> n \<and> n \<le> 32) \<or> n = 133 \<or> n = 160)"

definition py_strip :: "string \<Rightarrow> string" where
  "py_strip s = rev (dropWhile is_space (rev (dropWhile is_space s)))"

subsection \<open>The account selector (lines 50-85)\<close>

text \<open>
  Of an account row the selector reads the identifier and the name, both strings; the
  other columns (type, revenue, employees, industry) are only displayed, by lines 94-98,
  which are left out.
\<close>

record account_row =
  ACCOUNT_ID :: string
  ACCOUNT_NAME :: string

text \<open>
  What one run of the script reads from outside: the rows of the accounts query (\<open>None\<close>
  when the query raised and line 82 caught it), the position chosen in the dropdown, the
  content of the manual text field, and whether the user pressed the generate button.
\<close>

record form =
  accounts :: "account_row list option"
  chosen :: nat
  manual_account_id :: string
  pressed :: bool

definition account_label :: "account_row \<Rightarrow> string" where
  "account_label row = ACCOUNT_ID row @ '' - '' @ ACCOUNT_NAME row"

definition account_options :: "account_row list \<Rightarrow> string list" where
  "account_options rows = map account_label rows"

text \<open>\<open>st.selectbox\<close> returns the chosen option, and \<open>None\<close> when there is none.\<close>

definition selectbox :: "string list \<Rightarrow> nat \<Rightarrow> string option" where
  "selectbox options i = (if i < length options then Some (options ! i) else None)"

text \<open>Line 80: \<open>selected_account.split(' - ')[0]\<close>.\<close>

definition extract_account_id :: "string \<Rightarrow> exn + string" where
  "extract_account_id selected_account =
     and_then (py_split '' - '' selected_account) (\<lambda>parts. subscript parts 0)"

text \<open>
  The value of \<open>account_id\<close> after line 85. With no selection, \<open>None.split\<close> raises
  \<open>AttributeError\<close>, which line 82 catches like every other exception of the block.
\<close>

definition account_id :: "form \<Rightarrow> string option" where
  "account_id f =
     (case accounts f of
        None \<Rightarrow> None
      | Some rows \<Rightarrow>
          (case selectbox (account_options rows) (chosen f) of
             None \<Rightarrow> None
           | Some selected_account \<Rightarrow>
               (case extract_account_id selected_account of
                  Inl e \<Rightarrow> None
                | Inr a \<Rightarrow> Some a)))"

text \<open>Python's truth value of an optional string: \<open>None\<close> and \<open>""\<close> are false.\<close>

definition truthy :: "string option \<Rightarrow> bool" where
  "truthy v = (case v of None \<Rightarrow> False | Some s \<Rightarrow> s \<noteq> [])"

text \<open>
  Lines 90-92: the details of the selected account. \<open>.iloc[0]\<close> on an empty selection
  raises \<open>IndexError\<close>, outside every \<open>try\<close>: the run ends there.
\<close>

definition account_details :: "form \<Rightarrow> exn + account_row option" where
  "account_details f =
     (case (account_id f, accounts f) of
        (Some a, Some rows) \<Rightarrow>
          (if a \<noteq> [] then
             (case filter (\<lambda>row. ACCOUNT_ID row = a) rows of
                [] \<Rightarrow> Inl iloc_error
              | row # _ \<Rightarrow> Inr (Some row))
           else Inr None)
      | _ \<Rightarrow> Inr None)"

subsection \<open>The manual override and the generate button (lines 102-130)\<close>

text \<open>Line 109.\<close>

definition final_account_id :: "form \<Rightarrow> string option" where
  "final_account_id f =
     (if manual_account_id f \<noteq> [] then Some (manual_account_id f) else account_id f)"

text \<open>Line 120; a disabled button cannot be pressed, and \<open>st.button\<close> returns false.\<close>

definition button_disabled :: "form \<Rightarrow> bool" where
  "button_disabled f = (\<not> truthy (final_account_id f))"

definition generate_button :: "form \<Rightarrow> bool" where
  "generate_button f = (pressed f \<and> \<not> button_disabled f)"

text \<open>
  Line 124, \<open>if generate_button and final_account_id\<close>: the identifier with which the
  handler runs, \<open>None\<close> when the handler is skipped.
\<close>

definition guarded_call :: "bool \<Rightarrow> string option \<Rightarrow> string option" where
  "guarded_call button final_id = (if button \<and> truthy final_id then final_id else None)"

definition generation_call :: "form \<Rightarrow> string option" where
  "generation_call f = guarded_call (generate_button f) (final_account_id f)"

text \<open>
  Lines 128-130: the statement sent to the session. The identifier stands between the two
  quotes as it is.
\<close>

definition call_statement :: "string \<Rightarrow> string" where
  "call_statement final_id =
     CHR 0x0A # replicate 16 (CHR '' '') @
     ''CALL POWERPOINT_DB.REPORTING.GENERATE_ACCOUNT_POWERPOINT('' @ [CHR 0x27] @
     final_id @ [CHR 0x27] @ '')'' @ CHR 0x0A # replicate 12 (CHR '' '')"

subsection \<open>The generation handler (lines 124-209)\<close>

text \<open>
  The session answers a statement: \<open>session.sql(q).collect()[0][0]\<close> is a string, or
  the call raises.
\<close>

type_synonym session = "string \<Rightarrow> exn + string"

text \<open>What the handler puts on the page, in order; the fixed texts are left out.\<close>

datatype widget =
    Success_banner
  | File_name_info string
  | Download_heading
  | Download_link string
  | Url_code string
  | Snowsql_heading
  | Snowsql_code string
  | Expiry_tip
  | Result_text_area string
  | Failure_banner
  | Error_details string
  | Generation_error string
  | Troubleshooting_notes
  | Session_settings string string
  | Session_warning

text \<open>Line 136.\<close>

definition is_success :: "string \<Rightarrow> bool" where
  "is_success result_message = contains ''successfully'' (py_lower result_message)"

text \<open>Line 141.\<close>

definition parse_file_name :: "string \<Rightarrow> exn + string" where
  "parse_file_name result_message =
     and_then (py_split ''File:'' result_message) (\<lambda>parts.
     and_then (subscript parts 1) (\<lambda>rest.
     and_then (py_split ''|'' rest) (\<lambda>fields.
     and_then (subscript fields 0) (\<lambda>field. Inr (py_strip field)))))"

definition url_marker :: string where
  "url_marker = ''Download URL (valid for 24 hours):''"

text \<open>Line 146.\<close>

definition parse_url :: "string \<Rightarrow> exn + string" where
  "parse_url result_message =
     and_then (py_split url_marker result_message) (\<lambda>parts.
     and_then (subscript parts 1) (\<lambda>rest. Inr (py_strip rest)))"

text \<open>Line 165.\<close>

definition snowsql_command :: "string \<Rightarrow> string" where
  "snowsql_command file_name =
     ''GET @POWERPOINT_DB.REPORTING.PPT_STAGE/'' @ file_name @ '' file://./;''"

text \<open>
  Lines 137-171, the success branch: the widgets shown, and the exception that ended the
  branch if one was raised. The variable \<open>file_name\<close> is bound only when line 141 ran.
\<close>

definition show_success :: "string \<Rightarrow> widget list \<times> exn option" where
  "show_success result_message =
     (case (if contains ''File:'' result_message
            then map_sum id Some (parse_file_name result_message)
            else Inr None) of
        Inl e \<Rightarrow> ([Success_banner], Some e)
      | Inr file_name \<Rightarrow>
          (let shown = Success_banner #
                 (case file_name of None \<Rightarrow> [] | Some name \<Rightarrow> [File_name_info name])
           in if contains ''Download URL'' result_message then
                (case parse_url result_message of
                   Inl e \<Rightarrow> (shown, Some e)
                 | Inr url \<Rightarrow>
                     (let links = shown @
                            [Download_heading, Download_link url, Url_code url, Snowsql_heading]
                      in case file_name of
                           None \<Rightarrow> (links, Some (name_error ''file_name''))
                         | Some name \<Rightarrow>
                             (links @ [Snowsql_code (snowsql_command name), Expiry_tip], None)))
              else (shown @ [Result_text_area result_message], None)))"

text \<open>Lines 174-175.\<close>

definition show_failure :: "string \<Rightarrow> widget list" where
  "show_failure result_message = [Failure_banner, Error_details result_message]"

text \<open>Lines 127-175, the body of the \<open>try\<close>.\<close>

definition try_body :: "session \<Rightarrow> string \<Rightarrow> widget list \<times> exn option" where
  "try_body session final_id =
     (case session (call_statement final_id) of
        Inl e \<Rightarrow> ([], Some e)
      | Inr result_message \<Rightarrow>
          (if is_success result_message then show_success result_message
           else (show_failure result_message, None)))"

text \<open>Lines 181-209: the inner \<open>try\<close> has a bare \<open>except\<close>, which catches everything.\<close>

definition troubleshooting :: "session \<Rightarrow> widget list" where
  "troubleshooting session =
     Troubleshooting_notes #
     (case session ''SELECT CURRENT_ROLE()'' of
        Inl e \<Rightarrow> [Session_warning]
      | Inr current_role \<Rightarrow>
          (case session ''SELECT CURRENT_WAREHOUSE()'' of
             Inl e \<Rightarrow> [Session_warning]
           | Inr current_warehouse \<Rightarrow> [Session_settings current_role current_warehouse]))"

text \<open>
  Lines 126-209: the \<open>try\<close> with its \<open>except Exception\<close>. The result is what is on the
  page afterwards and the exception that leaves the handler, if any.
\<close>

definition generate_handler :: "session \<Rightarrow> string \<Rightarrow> widget list \<times> exn option" where
  "generate_handler session final_id =
     (case try_body session final_id of
        (shown, None) \<Rightarrow> (shown, None)
      | (shown, Some e) \<Rightarrow>
          (if isinstance_Exception e
           then (shown @ Generation_error (str_of e) # troubleshooting session, None)
           else (shown, Some e)))"

text \<open>Lines 87-209 of one run: the details, then the handler when line 124 lets it run.\<close>

definition run_page :: "session \<Rightarrow> form \<Rightarrow> widget list \<times> exn option" where
  "run_page session f =
     (case account_details f of
        Inl e \<Rightarrow> ([], Some e)
      | Inr details \<Rightarrow>
          (case generation_call f of
             None \<Rightarrow> ([], None)
           | Some final_id \<Rightarrow> generate_handler session final_id))"

subsection \<open>The wording of the specification\<close>

text \<open>
  The text of \<open>s\<close> before the first occurrence of \<open>sep\<close> (all of \<open>s\<close> when there is
  none), and the text after it (nothing when there is none).
\<close>

fun text_before :: "string \<Rightarrow> string \<Rightarrow> string" where
  "text_before sep [] = []"
| "text_before sep (c # cs) = (if prefix sep (c # cs) then [] else c # text_before sep cs)"

fun text_after :: "string \<Rightarrow> string \<Rightarrow> string" where
  "text_after sep [] = []"
| "text_after sep (c # cs) =
     (if prefix sep (c # cs) then drop (length sep) (c # cs) else text_after sep cs)"

text \<open>
  \<open>needle\<close> occurs in \<open>hay\<close> when compared case-insensitively: at some position of
  \<open>hay\<close> start as many characters as \<open>needle\<close> has that equal it up to case.
\<close>

definition equal_ignoring_case :: "string \<Rightarrow> string \<Rightarrow> bool" where
  "equal_ignoring_case a b = (py_lower a = py_lower b)"

definition occurs_ignoring_case :: "string \<Rightarrow> string \<Rightarrow> bool" where
  "occurs_ignoring_case needle hay =
     list_ex (\<lambda>k. equal_ignoring_case (take (length needle) (drop k hay)) needle)
       [0..<Suc (length hay)]"

text \<open>The example of section 8 of the specification.\<close>

definition spec_fragment :: string where
  "spec_fragment = ''File: Acme_20241027.pptx | Download URL (valid for 24 hours): https://x''"

section \<open>Properties of the string operations\<close>

text \<open>
  The defining equation of \<^const>\<open>split_pieces\<close> is recursive without a pattern, so it is
  unfolded by hand.
\<close>

declare split_pieces.simps [simp del]

subsection \<open>Searching and splitting\<close>

lemma py_find_None_iff: "py_find sub s = None \<longleftrightarrow> \<not> sublist sub s"
  by (induction s) (auto simp: sublist_Cons_right)

lemma contains_iff_sublist: "contains sub s \<longleftrightarrow> sublist sub s"
  by (simp add: contains_def py_find_None_iff)

lemma text_before_no_occurrence: "py_find sep s = None \<Longrightarrow> text_before sep s = s"
  by (induction s) (auto split: if_splits)

lemma py_find_cuts:
  "py_find sep s = Some i \<Longrightarrow>
     take i s = text_before sep s \<and> drop (i + length sep) s = text_after sep s"
proof (induction s arbitrary: i)
  case Nil
  then show ?case by (simp split: if_splits)
next
  case (Cons c cs)
  show ?case
  proof (cases "prefix sep (c # cs)")
    case True
    with Cons.prems show ?thesis by simp
  next
    case False
    with Cons.prems obtain j where j: "py_find sep cs = Some j" and i: "i = Suc j"
      by auto
    from Cons.IH [OF j] False i show ?thesis by simp
  qed
qed

lemma split_pieces_unfold:
  assumes "sep \<noteq> []"
  shows "split_pieces sep s =
           (if contains sep s then text_before sep s # split_pieces sep (text_after sep s)
            else [s])"
proof (cases "py_find sep s")
  case None
  then show ?thesis
    by (subst split_pieces.simps) (simp add: contains_def)
next
  case (Some i)
  with py_find_cuts [OF Some] assms show ?thesis
    by (subst split_pieces.simps) (simp add: contains_def)
qed

lemma split_pieces_first:
  assumes "sep \<noteq> []"
  shows "subscript (split_pieces sep s) 0 = Inr (text_before sep s)"
  by (subst split_pieces_unfold [OF assms])
     (simp add: subscript_def contains_def text_before_no_occurrence)

lemma split_pieces_second:
  assumes "sep \<noteq> []" and "contains sep s"
  shows "subscript (split_pieces sep s) (Suc 0) = Inr (text_before sep (text_after sep s))"
proof -
  have "split_pieces sep s = text_before sep s # split_pieces sep (text_after sep s)"
    using assms by (subst split_pieces_unfold) simp_all
  moreover have "split_pieces sep (text_after sep s) \<noteq> []"
    using assms(1) by (subst split_pieces_unfold) simp_all
  moreover have "subscript (split_pieces sep (text_after sep s)) 0
                   = Inr (text_before sep (text_after sep s))"
    using assms(1) by (rule split_pieces_first)
  ultimately show ?thesis
    by (cases "split_pieces sep (text_after sep s)") (simp_all add: subscript_def)
qed

lemma split_pieces_no_second:
  assumes "\<not> contains sep s"
  shows "subscript (split_pieces sep s) (Suc 0) = Inl index_error"
  using assms by (subst split_pieces.simps) (simp add: contains_def subscript_def)

subsection \<open>Where the first occurrence lies\<close>

lemma prefix_within:
  assumes "prefix xs (ys @ zs)" and "length xs \<le> length ys"
  shows "prefix xs ys"
proof -
  from assms(1) obtain us where "ys @ zs = xs @ us"
    by (auto simp: prefix_def)
  then have "take (length xs) (ys @ zs) = take (length xs) (xs @ us)"
    by (simp only:)
  with assms(2) have "xs = take (length xs) ys" by simp
  then show ?thesis by (metis take_is_prefix)
qed

lemma first_occurrence:
  assumes "sep \<noteq> []" and "\<not> sublist sep (p @ butlast sep)"
  shows "text_before sep (p @ sep @ rest) = p \<and> text_after sep (p @ sep @ rest) = rest"
  using assms(2)
proof (induction p)
  case Nil
  from assms(1) show ?case by (cases sep) simp_all
next
  case (Cons c p)
  from Cons.prems have no_prefix: "\<not> prefix sep ((c # p) @ butlast sep)"
    and later: "\<not> sublist sep (p @ butlast sep)"
    by (simp_all add: sublist_Cons_right)
  have "\<not> prefix sep (c # p @ sep @ rest)"
  proof
    assume "prefix sep (c # p @ sep @ rest)"
    moreover from assms(1) have "sep @ rest = butlast sep @ [last sep] @ rest"
      by (metis append_assoc append_butlast_last_id)
    ultimately have "prefix sep (((c # p) @ butlast sep) @ ([last sep] @ rest))"
      by simp
    moreover from assms(1) have "length sep \<le> length ((c # p) @ butlast sep)"
      by simp
    ultimately have "prefix sep ((c # p) @ butlast sep)" by (rule prefix_within)
    with no_prefix show False ..
  qed
  with Cons.IH [OF later] show ?case by simp
qed

lemma earlier_occurrence:
  assumes "sublist sep x"
  shows "length (text_before sep (x @ y)) + length sep \<le> length x"
  using assms
proof (induction x)
  case Nil
  then show ?case by (cases y) simp_all
next
  case (Cons c x)
  show ?case
  proof (cases "prefix sep (c # x @ y)")
    case True
    from Cons.prems have "length sep \<le> length (c # x)" by (rule sublist_length_le)
    with True show ?thesis by simp
  next
    case False
    then have "\<not> prefix sep (c # x)" by (metis append_Cons prefix_prefix)
    with Cons.prems have "sublist sep x" by (simp add: sublist_Cons_right)
    from Cons.IH [OF this] False show ?thesis by simp
  qed
qed

lemma skip_prefix:
  assumes "\<not> sublist sep p" and "r \<notin> set (tl sep)"
  shows "text_before sep (p @ r # rs) = p @ text_before sep (r # rs)
       \<and> text_after sep (p @ r # rs) = text_after sep (r # rs)
       \<and> (sublist sep (p @ r # rs) \<longleftrightarrow> sublist sep (r # rs))"
  using assms(1)
proof (induction p)
  case Nil
  show ?case by simp
next
  case (Cons c p)
  from Cons.prems have no_prefix: "\<not> prefix sep (c # p)" and later: "\<not> sublist sep p"
    by (simp_all add: sublist_Cons_right)
  have straddle: "\<not> prefix sep (c # p @ r # rs)"
  proof
    assume "prefix sep (c # p @ r # rs)"
    then have "prefix sep ((c # p) @ r # rs)" by simp
    with no_prefix prefix_append [of sep "c # p" "r # rs"]
    obtain us where us: "sep = (c # p) @ us" and fits: "prefix us (r # rs)"
      by blast
    from us no_prefix have "us \<noteq> []" by auto
    with fits obtain vs where "us = r # vs" by (cases us) auto
    with us have "r \<in> set (tl sep)" by simp
    with assms(2) show False ..
  qed
  with Cons.IH [OF later] show ?case
    by (simp add: sublist_Cons_right)
qed

lemma occurrence_in_front:
  assumes "sublist sep s"
  shows "text_before sep (s @ t) = text_before sep s
       \<and> text_after sep (s @ t) = text_after sep s @ t"
  using assms
proof (induction s)
  case Nil
  then show ?case by (cases t) simp_all
next
  case (Cons c s)
  show ?case
  proof (cases "prefix sep (c # s)")
    case True
    then have "prefix sep (c # s @ t)" by (metis append_Cons prefix_prefix)
    moreover from True have "length sep \<le> length (c # s)" by (rule prefix_length_le)
    then have "drop (length sep) (c # s @ t) = drop (length sep) (c # s) @ t"
      using drop_append [of "length sep" "c # s" t] by simp
    ultimately show ?thesis using True by simp
  next
    case False
    with Cons.prems have inner: "sublist sep s" by (simp add: sublist_Cons_right)
    have "\<not> prefix sep (c # s @ t)"
    proof
      assume "prefix sep (c # s @ t)"
      then have "prefix sep ((c # s) @ t)" by simp
      moreover from inner have "length sep \<le> length (c # s)"
        using sublist_length_le by fastforce
      ultimately have "prefix sep (c # s)" by (rule prefix_within)
      with False show False ..
    qed
    with False Cons.IH [OF inner] show ?thesis by simp
  qed
qed

lemma text_before_absent_char:
  assumes "c \<in> set sep" and "c \<notin> set s"
  shows "text_before sep s = s"
proof -
  from assms have "\<not> sublist sep s" using set_mono_sublist by fastforce
  then show ?thesis by (simp add: text_before_no_occurrence py_find_None_iff)
qed

lemma text_before_bar:
  assumes "CHR ''|'' \<notin> set b"
  shows "prefix b s \<Longrightarrow> prefix b (text_before ''|'' s)"
  using assms
proof (induction s arbitrary: b)
  case Nil
  then show ?case by simp
next
  case (Cons x s)
  show ?case
  proof (cases b)
    case Nil
    then show ?thesis by simp
  next
    case (Cons y b')
    with Cons.prems have "y = x" and "prefix b' s" and "CHR ''|'' \<notin> set b'" and "x \<noteq> CHR ''|''"
      by auto
    with Cons.IH [of b'] Cons show ?thesis by simp
  qed
qed

lemma text_before_bar_inner:
  assumes "CHR ''|'' \<notin> set b" and "\<not> sublist b (text_before ''|'' s)"
  shows "text_before ''|'' (text_before b s) = text_before ''|'' s"
  using assms(2)
proof (induction s)
  case Nil
  show ?case by simp
next
  case (Cons x s)
  have no_prefix: "\<not> prefix b (x # s)"
  proof
    assume "prefix b (x # s)"
    with assms(1) have "prefix b (text_before ''|'' (x # s))" by (rule text_before_bar)
    then have "sublist b (text_before ''|'' (x # s))" by (rule prefix_imp_sublist)
    with Cons.prems show False ..
  qed
  show ?case
  proof (cases "x = CHR ''|''")
    case True
    with no_prefix show ?thesis by simp
  next
    case False
    with Cons.prems have "\<not> sublist b (text_before ''|'' s)"
      by (simp add: sublist_Cons_right)
    from Cons.IH [OF this] no_prefix False show ?thesis by simp
  qed
qed

subsection \<open>Case and whitespace\<close>

lemma sublist_window:
  "sublist xs ys \<longleftrightarrow> (\<exists>k < Suc (length ys). take (length xs) (drop k ys) = xs)"
proof
  assume "sublist xs ys"
  then obtain ps ss where "ys = ps @ xs @ ss" by (auto simp: sublist_def)
  then have "length ps < Suc (length ys) \<and> take (length xs) (drop (length ps) ys) = xs"
    by simp
  then show "\<exists>k < Suc (length ys). take (length xs) (drop k ys) = xs" ..
next
  assume "\<exists>k < Suc (length ys). take (length xs) (drop k ys) = xs"
  then obtain k where "take (length xs) (drop k ys) = xs" by blast
  moreover have "sublist (take (length xs) (drop k ys)) (drop k ys)" by simp
  moreover have "sublist (drop k ys) ys" by simp
  ultimately show "sublist xs ys" by (metis sublist_order.order_trans)
qed

lemma lower_window:
  "take n (drop k (py_lower s)) = py_lower (take n (drop k s))"
  by (simp add: py_lower_def take_map drop_map)

lemma contains_lower_iff:
  assumes "py_lower needle = needle"
  shows "contains needle (py_lower hay) \<longleftrightarrow> occurs_ignoring_case needle hay"
proof -
  have "contains needle (py_lower hay)
          \<longleftrightarrow> (\<exists>k < Suc (length hay). py_lower (take (length needle) (drop k hay)) = needle)"
    by (simp add: contains_iff_sublist sublist_window lower_window)
       (simp add: py_lower_def)
  also have "\<dots> \<longleftrightarrow> occurs_ignoring_case needle hay"
    unfolding occurs_ignoring_case_def equal_ignoring_case_def list_ex_iff set_upt assms
    by (simp only: atLeast0LessThan lessThan_iff Bex_def)
  finally show ?thesis .
qed

lemma successfully_is_lower: "py_lower ''successfully'' = ''successfully''"
  by code_simp

lemma is_success_iff: "is_success m \<longleftrightarrow> occurs_ignoring_case ''successfully'' m"
  unfolding is_success_def using successfully_is_lower by (rule contains_lower_iff)

lemma strip_trailing:
  assumes "list_all is_space q"
  shows "py_strip (w @ q) = py_strip w"
proof (cases "list_all is_space w")
  case True
  with assms have "dropWhile is_space (w @ q) = []" and "dropWhile is_space w = []"
    by (simp_all only: dropWhile_eq_Nil_conv list_all_iff set_append Un_iff ball_Un simp_thms)
  then show ?thesis by (simp only: py_strip_def)
next
  case False
  then have "dropWhile is_space (w @ q) = dropWhile is_space w @ q"
    by (auto simp: list_all_iff dropWhile_append1)
  moreover from assms have "dropWhile is_space (rev q @ t) = dropWhile is_space t" for t
    by (simp add: list_all_iff dropWhile_append)
  ultimately show ?thesis by (simp add: py_strip_def)
qed

lemma space_is_no_letter:
  assumes "list_all is_space t"
  shows "CHR ''F'' \<notin> set t \<and> CHR ''D'' \<notin> set t"
proof -
  have "\<not> is_space CHR ''F''" and "\<not> is_space CHR ''D''" by code_simp+
  with assms show ?thesis by (auto simp: list_all_iff)
qed

subsection \<open>The expressions of lines 80, 141 and 146\<close>

lemma parse_file_name_eq:
  assumes "contains ''File:'' m"
  shows "parse_file_name m =
           Inr (py_strip (text_before ''|'' (text_before ''File:'' (text_after ''File:'' m))))"
  using assms
  by (simp add: parse_file_name_def py_split_def and_then_def
        split_pieces_second split_pieces_first)

lemma parse_url_eq:
  assumes "contains url_marker m"
  shows "parse_url m = Inr (py_strip (text_before url_marker (text_after url_marker m)))"
proof -
  have "url_marker \<noteq> []" by (simp add: url_marker_def)
  with assms show ?thesis
    by (simp add: parse_url_def py_split_def and_then_def split_pieces_second)
qed

lemma parse_url_fails:
  assumes "\<not> contains url_marker m"
  shows "parse_url m = Inl index_error"
proof -
  have "url_marker \<noteq> []" by (simp add: url_marker_def)
  with assms show ?thesis
    by (simp add: parse_url_def py_split_def and_then_def split_pieces_no_second)
qed

lemma extract_account_id_eq:
  "extract_account_id selected = Inr (text_before '' - '' selected)"
  by (simp add: extract_account_id_def py_split_def and_then_def split_pieces_first)

text \<open>
  The label of an account row gives back the identifier of the row exactly when \<open>" - "\<close>
  does not occur in the identifier followed by \<open>" -"\<close>.
\<close>

lemma label_round_trip:
  "(extract_account_id (account_label row) = Inr (ACCOUNT_ID row)
      \<longleftrightarrow> \<not> contains '' - '' (ACCOUNT_ID row @ '' -''))
   \<and> (accounts f = Some rows \<and> chosen f < length rows
        \<and> \<not> contains '' - '' (ACCOUNT_ID (rows ! chosen f) @ '' -'')
      \<longrightarrow> account_id f = Some (ACCOUNT_ID (rows ! chosen f)))"
proof -
  have round_trip: "extract_account_id (account_label r) = Inr (ACCOUNT_ID r)
      \<longleftrightarrow> \<not> contains '' - '' (ACCOUNT_ID r @ '' -'')" for r :: account_row
  proof (cases "sublist '' - '' (ACCOUNT_ID r @ '' -'')")
    case False
    then have "\<not> sublist '' - '' (ACCOUNT_ID r @ butlast '' - '')" by simp
    with first_occurrence [of "'' - ''" "ACCOUNT_ID r" "ACCOUNT_NAME r"]
    have "text_before '' - '' (ACCOUNT_ID r @ '' - '' @ ACCOUNT_NAME r) = ACCOUNT_ID r"
      by blast
    with False show ?thesis
      by (simp add: extract_account_id_eq account_label_def contains_iff_sublist)
  next
    case True
    from earlier_occurrence [OF True, of "'' '' @ ACCOUNT_NAME r"]
    have "length (text_before '' - '' (ACCOUNT_ID r @ '' - '' @ ACCOUNT_NAME r))
            < length (ACCOUNT_ID r)"
      by simp
    then have "text_before '' - '' (ACCOUNT_ID r @ '' - '' @ ACCOUNT_NAME r) \<noteq> ACCOUNT_ID r"
      by auto
    with True show ?thesis
      by (simp add: extract_account_id_eq account_label_def contains_iff_sublist)
  qed
  have "account_id f = Some (ACCOUNT_ID (rows ! chosen f))"
    if "accounts f = Some rows" and "chosen f < length rows"
      and "\<not> contains '' - '' (ACCOUNT_ID (rows ! chosen f) @ '' -'')"
    using that round_trip [of "rows ! chosen f"]
    by (simp add: account_id_def selectbox_def account_options_def)
  with round_trip [of row] show ?thesis by blast
qed

lemma Download_URL_in_marker:
  assumes "contains url_marker m"
  shows "contains ''Download URL'' m"
proof -
  have "prefix ''Download URL'' url_marker" by (simp add: url_marker_def)
  then have "sublist ''Download URL'' url_marker" by (rule prefix_imp_sublist)
  moreover from assms have "sublist url_marker m" by (simp add: contains_iff_sublist)
  ultimately have "sublist ''Download URL'' m" by (rule sublist_order.order_trans)
  then show ?thesis by (simp add: contains_iff_sublist)
qed

section \<open>Properties of the generation handler\<close>

lemma call_statement_inj: "call_statement a = call_statement b \<Longrightarrow> a = b"
  by (simp add: call_statement_def)

lemma show_success_no_markers:
  assumes "\<not> contains ''File:'' m" and "\<not> contains ''Download URL'' m"
  shows "show_success m = ([Success_banner, Result_text_area m], None)"
  using assms by (simp add: show_success_def)

lemma show_success_both:
  assumes "contains ''File:'' m" and "contains ''Download URL'' m"
    and "parse_file_name m = Inr name" and "parse_url m = Inr url"
  shows "show_success m =
           ([Success_banner, File_name_info name, Download_heading, Download_link url,
             Url_code url, Snowsql_heading, Snowsql_code (snowsql_command name), Expiry_tip],
            None)"
  using assms by (simp add: show_success_def)

lemma show_success_url_only:
  assumes "\<not> contains ''File:'' m" and "contains ''Download URL'' m"
    and "parse_url m = Inr url"
  shows "show_success m =
           ([Success_banner, Download_heading, Download_link url, Url_code url,
             Snowsql_heading], Some (name_error ''file_name''))"
  using assms by (simp add: show_success_def)

lemma show_success_url_fails:
  assumes "contains ''Download URL'' m" and "parse_url m = Inl e"
  shows "show_success m =
           (Success_banner #
              (if contains ''File:'' m
               then (case parse_file_name m of Inr name \<Rightarrow> [File_name_info name] | Inl x \<Rightarrow> [])
               else []), Some e)"
  using assms parse_file_name_eq [of m] by (simp add: show_success_def)

lemma show_success_raises_Exception:
  assumes "show_success m = (shown, Some e)"
  shows "isinstance_Exception e"
proof (cases "contains ''Download URL'' m")
  case False
  with assms parse_file_name_eq [of m] show ?thesis
    by (simp add: show_success_def split: if_splits)
next
  case dl: True
  show ?thesis
  proof (cases "contains url_marker m")
    case True
    with assms dl parse_file_name_eq [of m] parse_url_eq [of m] show ?thesis
      by (auto simp: show_success_def isinstance_Exception_def name_error_def
          split: if_splits)
  next
    case False
    with assms dl parse_file_name_eq [of m] parse_url_fails [of m] show ?thesis
      by (auto simp: show_success_def isinstance_Exception_def index_error_def
          split: if_splits)
  qed
qed

lemma show_success_starts:
  "\<exists>rest. fst (show_success m) = Success_banner # rest"
  by (simp add: show_success_def Let_def split: sum.splits option.splits)

lemma handler_on_message:
  assumes "session (call_statement final_id) = Inr m"
  shows "try_body session final_id =
           (if is_success m then show_success m else (show_failure m, None))"
  using assms by (simp add: try_body_def)

lemma handler_passes_clean_run:
  assumes "try_body session final_id = (shown, None)"
  shows "generate_handler session final_id = (shown, None)"
  using assms by (simp add: generate_handler_def)

lemma handler_catches_Exception:
  assumes "try_body session final_id = (shown, Some e)" and "isinstance_Exception e"
  shows "generate_handler session final_id =
           (shown @ Generation_error (str_of e) # troubleshooting session, None)"
  using assms by (simp add: generate_handler_def)

lemma handler_shows_try_body:
  "\<exists>more. fst (generate_handler session final_id) = fst (try_body session final_id) @ more"
  by (cases "try_body session final_id")
     (auto simp: generate_handler_def split: option.splits)

lemma try_body_raises:
  assumes "try_body session final_id = (shown, Some e)"
  shows "session (call_statement final_id) = Inl e
       \<or> (\<exists>m. session (call_statement final_id) = Inr m \<and> show_success m = (shown, Some e))"
  using assms by (auto simp: try_body_def split: sum.splits if_splits)

lemma troubleshooting_widgets:
  "Result_text_area r \<notin> set (troubleshooting session)
   \<and> Download_link u \<notin> set (troubleshooting session)"
  by (simp add: troubleshooting_def split: sum.splits)

lemma file_name_is_shown:
  assumes "session (call_statement final_id) = Inr m" and "is_success m"
    and "contains ''File:'' m" and "parse_file_name m = Inr name"
  shows "File_name_info name \<in> set (fst (generate_handler session final_id))"
proof -
  from assms(1,2) have "try_body session final_id = show_success m"
    by (simp add: handler_on_message)
  then obtain more where
    "fst (generate_handler session final_id) = fst (show_success m) @ more"
    using handler_shows_try_body [of session final_id] by auto
  moreover from assms(3,4) have "File_name_info name \<in> set (fst (show_success m))"
    by (simp add: show_success_def Let_def split: sum.splits)
  ultimately show ?thesis by simp
qed

lemma url_is_shown:
  assumes "session (call_statement final_id) = Inr m" and "is_success m"
    and "contains ''Download URL'' m" and "parse_url m = Inr url"
  shows "Download_link url \<in> set (fst (generate_handler session final_id))"
proof -
  from assms(1,2) have "try_body session final_id = show_success m"
    by (simp add: handler_on_message)
  then obtain more where shown:
    "fst (generate_handler session final_id) = fst (show_success m) @ more"
    using handler_shows_try_body [of session final_id] by auto
  have "Download_link url \<in> set (fst (show_success m))"
  proof (cases "contains ''File:'' m")
    case True
    then obtain name where "parse_file_name m = Inr name"
      using parse_file_name_eq by blast
    with True assms(3,4) show ?thesis by (simp add: show_success_both)
  next
    case False
    with assms(3,4) show ?thesis by (simp add: show_success_url_only)
  qed
  with shown show ?thesis by simp
qed

section \<open>The claims\<close>

subsection \<open>C1: the success test\<close>

text \<open>
  C1. Whatever message the call returns, the handler takes the success branch exactly when
  \<open>successfully\<close> occurs in the message up to case. On success the page starts with the
  success banner and shows each detail that was parsed: the file name when \<open>File:\<close>
  occurs, the download link and the URL as code when \<open>Download URL\<close> occurs and the URL
  was extracted. Otherwise the page shows the failure banner and the raw message, and
  nothing else.
\<close>

theorem success_iff_successfully:
  assumes "session (call_statement final_id) = Inr m"
  shows "(is_success m \<longleftrightarrow> occurs_ignoring_case ''successfully'' m)
       \<and> (if is_success m
          then (\<exists>rest. fst (generate_handler session final_id) = Success_banner # rest)
             \<and> (contains ''File:'' m \<longrightarrow>
                  (\<exists>name. parse_file_name m = Inr name
                     \<and> File_name_info name \<in> set (fst (generate_handler session final_id))))
             \<and> (\<forall>url. contains ''Download URL'' m \<and> parse_url m = Inr url \<longrightarrow>
                  Download_link url \<in> set (fst (generate_handler session final_id))
                  \<and> Url_code url \<in> set (fst (generate_handler session final_id)))
          else generate_handler session final_id = ([Failure_banner, Error_details m], None))"
proof (cases "is_success m")
  case False
  with assms have "try_body session final_id = ([Failure_banner, Error_details m], None)"
    by (simp add: handler_on_message show_failure_def)
  then have "generate_handler session final_id = ([Failure_banner, Error_details m], None)"
    by (rule handler_passes_clean_run)
  with False show ?thesis by (simp add: is_success_iff)
next
  case True
  with assms have body: "try_body session final_id = show_success m"
    by (simp add: handler_on_message)
  obtain more where shown:
    "fst (generate_handler session final_id) = fst (show_success m) @ more"
    using handler_shows_try_body [of session final_id] body by auto
  obtain rest where "fst (show_success m) = Success_banner # rest"
    using show_success_starts [of m] by blast
  with shown have banner:
    "\<exists>rest. fst (generate_handler session final_id) = Success_banner # rest"
    by simp
  have file_shown: "\<exists>name. parse_file_name m = Inr name
                \<and> File_name_info name \<in> set (fst (generate_handler session final_id))"
    if "contains ''File:'' m"
  proof -
    from that obtain name where name: "parse_file_name m = Inr name"
      using parse_file_name_eq by blast
    with that have "File_name_info name \<in> set (fst (show_success m))"
      by (simp add: show_success_def Let_def split: sum.splits)
    with shown name show ?thesis by simp
  qed
  have url_shown: "Download_link url \<in> set (fst (generate_handler session final_id))
           \<and> Url_code url \<in> set (fst (generate_handler session final_id))"
    if "contains ''Download URL'' m" and "parse_url m = Inr url" for url
  proof -
    have "Download_link url \<in> set (fst (show_success m))
        \<and> Url_code url \<in> set (fst (show_success m))"
    proof (cases "contains ''File:'' m")
      case True
      then obtain name where "parse_file_name m = Inr name"
        using parse_file_name_eq by blast
      with True that show ?thesis by (simp add: show_success_both)
    next
      case False
      with that show ?thesis by (simp add: show_success_url_only)
    qed
    with shown show ?thesis by simp
  qed
  from True banner file_shown url_shown show ?thesis by (simp add: is_success_iff [symmetric])
qed

theorem success_iff_successfully_witness:
  "is_success
     ''PowerPoint generated SUCCESSFULLY! File: Acme_20241027.pptx | Download URL (valid for 24 hours): https://x''
   \<and> occurs_ignoring_case ''successfully''
     ''PowerPoint generated SUCCESSFULLY! File: Acme_20241027.pptx | Download URL (valid for 24 hours): https://x''
   \<and> (\<exists>rest. fst (generate_handler
         (\<lambda>q. Inr ''PowerPoint generated SUCCESSFULLY! File: Acme_20241027.pptx | Download URL (valid for 24 hours): https://x'')
         ''ACC001'') = Success_banner # rest)
   \<and> File_name_info ''Acme_20241027.pptx'' \<in> set (fst (generate_handler
         (\<lambda>q. Inr ''PowerPoint generated SUCCESSFULLY! File: Acme_20241027.pptx | Download URL (valid for 24 hours): https://x'')
         ''ACC001''))
   \<and> Download_link ''https://x'' \<in> set (fst (generate_handler
         (\<lambda>q. Inr ''PowerPoint generated SUCCESSFULLY! File: Acme_20241027.pptx | Download URL (valid for 24 hours): https://x'')
         ''ACC001''))
   \<and> \<not> is_success ''Error: account not found''
   \<and> \<not> occurs_ignoring_case ''successfully'' ''Error: account not found''
   \<and> generate_handler (\<lambda>q. Inr ''Error: account not found'') ''ACC001''
       = ([Failure_banner, Error_details ''Error: account not found''], None)"
proof -
  let ?m = "''PowerPoint generated SUCCESSFULLY! File: Acme_20241027.pptx | Download URL (valid for 24 hours): https://x''"
  let ?shown = "fst (generate_handler (\<lambda>q. Inr ?m) ''ACC001'')"
  have yes: "is_success ?m" by code_simp
  have no: "\<not> is_success ''Error: account not found''" by code_simp
  have has_file: "contains ''File:'' ?m" by code_simp
  have name: "parse_file_name ?m = Inr ''Acme_20241027.pptx''" by code_simp
  have link: "contains ''Download URL'' ?m" by code_simp
  have url: "parse_url ?m = Inr ''https://x''" by code_simp
  note good = success_iff_successfully [of "\<lambda>q. Inr ?m" "''ACC001''" ?m, OF refl]
  note bad = success_iff_successfully
      [of "\<lambda>q. Inr ''Error: account not found''" "''ACC001''" "''Error: account not found''",
       OF refl]
  note branch = good [THEN conjunct2, unfolded if_P [OF yes]]
  from good yes have occurs: "occurs_ignoring_case ''successfully'' ?m" by blast
  from branch have banner: "\<exists>rest. ?shown = Success_banner # rest"
    by (rule conjunct1)
  from branch [THEN conjunct2, THEN conjunct1, rule_format, OF has_file] name
  have name_shown: "File_name_info ''Acme_20241027.pptx'' \<in> set ?shown"
    by auto
  from branch [THEN conjunct2, THEN conjunct2, rule_format, of "''https://x''"] link url
  have link_shown: "Download_link ''https://x'' \<in> set ?shown"
    by blast
  from bad [THEN conjunct1] no
  have no_occurrence: "\<not> occurs_ignoring_case ''successfully'' ''Error: account not found''"
    by blast
  note failure = bad [THEN conjunct2, unfolded if_not_P [OF no]]
  from yes occurs banner name_shown link_shown no no_occurrence failure
  show ?thesis by blast
qed

subsection \<open>C2: the manual override\<close>



subsection \<open>C3: the example of the specification\<close>

text \<open>
  C3, as stated, fails: a message can contain the example text and yield other values. Here
  an earlier \<open>File:\<close> field comes first, and the URL goes on after \<open>https://x\<close>; the
  file name extracted is \<open>old.pptx\<close> and the URL is the longer one.
\<close>

theorem spec_example_in_context:
  "contains spec_fragment
     ''Generated successfully. File: old.pptx | File: Acme_20241027.pptx | Download URL (valid for 24 hours): https://x/Acme_20241027.pptx''
   \<and> is_success
     ''Generated successfully. File: old.pptx | File: Acme_20241027.pptx | Download URL (valid for 24 hours): https://x/Acme_20241027.pptx''
   \<and> parse_file_name
     ''Generated successfully. File: old.pptx | File: Acme_20241027.pptx | Download URL (valid for 24 hours): https://x/Acme_20241027.pptx''
       = Inr ''old.pptx''
   \<and> parse_url
     ''Generated successfully. File: old.pptx | File: Acme_20241027.pptx | Download URL (valid for 24 hours): https://x/Acme_20241027.pptx''
       = Inr ''https://x/Acme_20241027.pptx''"
  by code_simp

text \<open>
  C3, amended. When the example text is preceded by text that contains neither \<open>File:\<close>
  nor the URL marker, and followed by whitespace only, the file name extracted is
  \<open>Acme_20241027.pptx\<close> and the URL is \<open>https://x\<close>; the success branch shows both, with
  the SnowSQL command for that file, and raises nothing.
\<close>

theorem spec_example_extraction:
  assumes "m = before @ spec_fragment @ trailing"
    and "\<not> contains ''File:'' before" and "\<not> contains url_marker before"
    and "list_all is_space trailing"
  shows "parse_file_name m = Inr ''Acme_20241027.pptx''
       \<and> parse_url m = Inr ''https://x''
       \<and> (\<forall>session final_id. session (call_statement final_id) = Inr m \<and> is_success m \<longrightarrow>
            generate_handler session final_id
              = ([Success_banner, File_name_info ''Acme_20241027.pptx'', Download_heading,
                  Download_link ''https://x'', Url_code ''https://x'', Snowsql_heading,
                  Snowsql_code (snowsql_command ''Acme_20241027.pptx''), Expiry_tip], None))"
proof -
  let ?rest = "'' Acme_20241027.pptx | Download URL (valid for 24 hours): https://x''"
  from assms(4) have no_F: "CHR ''F'' \<notin> set trailing" and no_D: "CHR ''D'' \<notin> set trailing"
    using space_is_no_letter by blast+
  have shape: "spec_fragment @ trailing = CHR ''F'' # tl (spec_fragment @ trailing)"
    by (simp add: spec_fragment_def)
  have frag_in_m: "sublist spec_fragment m"
    unfolding assms(1) by (rule sublist_appendI)

  have "sublist ''File:'' spec_fragment" by (simp add: spec_fragment_def)
  then have file_in_m: "contains ''File:'' m"
    using frag_in_m sublist_order.order_trans contains_iff_sublist by blast
  have "text_after ''File:'' m = text_after ''File:'' (spec_fragment @ trailing)"
    using skip_prefix [of "''File:''" before "CHR ''F''" "tl (spec_fragment @ trailing)"]
      assms(2) shape
    by (simp add: assms(1) contains_iff_sublist)
  also have "\<dots> = ?rest @ trailing"
    by (simp add: spec_fragment_def)
  finally have after_file: "text_after ''File:'' m = ?rest @ trailing" .
  have "text_before ''File:'' (?rest @ trailing) = ?rest @ trailing"
    using no_F by (intro text_before_absent_char [of "CHR ''F''"]) simp_all
  moreover have "text_before ''|'' (?rest @ trailing) = text_before ''|'' ?rest"
  proof -
    have "contains ''|'' ?rest" by code_simp
    then have "sublist ''|'' ?rest" by (simp only: contains_iff_sublist)
    then show ?thesis using occurrence_in_front by blast
  qed
  moreover have "py_strip (text_before ''|'' ?rest) = ''Acme_20241027.pptx''"
    by code_simp
  ultimately have name: "parse_file_name m = Inr ''Acme_20241027.pptx''"
    using parse_file_name_eq [OF file_in_m] after_file by simp

  have "contains url_marker spec_fragment" unfolding spec_fragment_def by code_simp
  then have marker_in_frag: "sublist url_marker spec_fragment"
    by (simp only: contains_iff_sublist)
  then have marker_in_m: "contains url_marker m"
    using frag_in_m sublist_order.order_trans contains_iff_sublist by blast
  have "CHR ''F'' \<notin> set (tl url_marker)" by (simp add: url_marker_def)
  then have "text_after url_marker m = text_after url_marker (spec_fragment @ trailing)"
    using skip_prefix [of url_marker before "CHR ''F''" "tl (spec_fragment @ trailing)"]
      assms(3) shape
    by (simp add: assms(1) contains_iff_sublist)
  also have "\<dots> = text_after url_marker spec_fragment @ trailing"
    using marker_in_frag occurrence_in_front by blast
  also have "text_after url_marker spec_fragment = '' https://x''"
    unfolding spec_fragment_def by code_simp
  finally have after_marker: "text_after url_marker m = '' https://x'' @ trailing" .
  have "text_before url_marker ('' https://x'' @ trailing) = '' https://x'' @ trailing"
    using no_D by (intro text_before_absent_char [of "CHR ''D''"]) (simp_all add: url_marker_def)
  moreover from assms(4) have "py_strip ('' https://x'' @ trailing) = py_strip '' https://x''"
    by (rule strip_trailing)
  moreover have "py_strip '' https://x'' = ''https://x''" by code_simp
  ultimately have url: "parse_url m = Inr ''https://x''"
    using parse_url_eq [OF marker_in_m] after_marker by simp

  from marker_in_m have "contains ''Download URL'' m" by (rule Download_URL_in_marker)
  with file_in_m name url have "show_success m
      = ([Success_banner, File_name_info ''Acme_20241027.pptx'', Download_heading,
          Download_link ''https://x'', Url_code ''https://x'', Snowsql_heading,
          Snowsql_code (snowsql_command ''Acme_20241027.pptx''), Expiry_tip], None)"
    by (simp add: show_success_both)
  then have "generate_handler session final_id
      = ([Success_banner, File_name_info ''Acme_20241027.pptx'', Download_heading,
          Download_link ''https://x'', Url_code ''https://x'', Snowsql_heading,
          Snowsql_code (snowsql_command ''Acme_20241027.pptx''), Expiry_tip], None)"
    if "session (call_statement final_id) = Inr m" and "is_success m" for session final_id
    using that by (intro handler_passes_clean_run) (simp add: handler_on_message)
  with name url show ?thesis by blast
qed

theorem spec_example_extraction_witness:
  "\<not> contains ''File:'' ''PowerPoint generated successfully! ''
   \<and> \<not> contains url_marker ''PowerPoint generated successfully! ''
   \<and> list_all is_space [CHR 0x0A]
   \<and> is_success (''PowerPoint generated successfully! '' @ spec_fragment @ [CHR 0x0A])
   \<and> parse_file_name (''PowerPoint generated successfully! '' @ spec_fragment @ [CHR 0x0A])
       = Inr ''Acme_20241027.pptx''
   \<and> parse_url (''PowerPoint generated successfully! '' @ spec_fragment @ [CHR 0x0A])
       = Inr ''https://x''
   \<and> generate_handler
        (\<lambda>q. Inr (''PowerPoint generated successfully! '' @ spec_fragment @ [CHR 0x0A]))
        ''ACC001''
       = ([Success_banner, File_name_info ''Acme_20241027.pptx'', Download_heading,
           Download_link ''https://x'', Url_code ''https://x'', Snowsql_heading,
           Snowsql_code (snowsql_command ''Acme_20241027.pptx''), Expiry_tip], None)"
proof -
  have a: "\<not> contains ''File:'' ''PowerPoint generated successfully! ''" by code_simp
  have b: "\<not> contains url_marker ''PowerPoint generated successfully! ''" by code_simp
  have c: "list_all is_space [CHR 0x0A]" by code_simp
  have d: "is_success (''PowerPoint generated successfully! '' @ spec_fragment @ [CHR 0x0A])"
    by code_simp
  note example = spec_example_extraction [OF refl a b c]
  from example have every: "\<forall>session final_id.
      session (call_statement final_id)
        = Inr (''PowerPoint generated successfully! '' @ spec_fragment @ [CHR 0x0A])
      \<and> is_success (''PowerPoint generated successfully! '' @ spec_fragment @ [CHR 0x0A]) \<longrightarrow>
      generate_handler session final_id
        = ([Success_banner, File_name_info ''Acme_20241027.pptx'', Download_heading,
            Download_link ''https://x'', Url_code ''https://x'', Snowsql_heading,
            Snowsql_code (snowsql_command ''Acme_20241027.pptx''), Expiry_tip], None)"
    by (rule conjunct2 [OF conjunct2])
  from d every [rule_format,
      of "\<lambda>q. Inr (''PowerPoint generated successfully! '' @ spec_fragment @ [CHR 0x0A])"
         "''ACC001''"]
  have "generate_handler
        (\<lambda>q. Inr (''PowerPoint generated successfully! '' @ spec_fragment @ [CHR 0x0A]))
        ''ACC001''
       = ([Success_banner, File_name_info ''Acme_20241027.pptx'', Download_heading,
           Download_link ''https://x'', Url_code ''https://x'', Snowsql_heading,
           Snowsql_code (snowsql_command ''Acme_20241027.pptx''), Expiry_tip], None)"
    by blast
  with a b c d example show ?thesis by blast
qed

subsection \<open>C4: the file name\<close>

text \<open>
  C4, as stated, fails: \<open>split("File:")[1]\<close> ends at the second \<open>File:\<close>, so a second
  marker before the next bar ends the file name. The text between the first marker and the
  next bar is \<open>a.pptx File: b.pptx\<close>; the page shows \<open>a.pptx\<close>.
\<close>

theorem second_marker_ends_file_name:
  "is_success ''Generated successfully. File: a.pptx File: b.pptx | c''
   \<and> contains ''File:'' ''Generated successfully. File: a.pptx File: b.pptx | c''
   \<and> contains ''|'' (text_after ''File:'' ''Generated successfully. File: a.pptx File: b.pptx | c'')
   \<and> py_strip (text_before ''|''
        (text_after ''File:'' ''Generated successfully. File: a.pptx File: b.pptx | c''))
       = ''a.pptx File: b.pptx''
   \<and> generate_handler (\<lambda>q. Inr ''Generated successfully. File: a.pptx File: b.pptx | c'')
        ''ACC001''
       = ([Success_banner, File_name_info ''a.pptx'',
           Result_text_area ''Generated successfully. File: a.pptx File: b.pptx | c''], None)"
  by code_simp

text \<open>
  C4, amended. For a successful message that contains \<open>File:\<close>, the file name shown is
  the text after the first \<open>File:\<close> up to the next bar or the next \<open>File:\<close>,
  whichever comes first, or up to the end of the message when neither follows; surrounding
  whitespace is stripped. When no \<open>File:\<close> stands between the first marker and the next
  bar, this is the text between the first marker and the next bar, as C4 says.
\<close>

theorem file_name_between_markers:
  assumes "session (call_statement final_id) = Inr m"
    and "is_success m" and "contains ''File:'' m"
  shows "parse_file_name m
           = Inr (py_strip (text_before ''|'' (text_before ''File:'' (text_after ''File:'' m))))
       \<and> File_name_info
           (py_strip (text_before ''|'' (text_before ''File:'' (text_after ''File:'' m))))
           \<in> set (fst (generate_handler session final_id))
       \<and> (\<not> contains ''File:'' (text_before ''|'' (text_after ''File:'' m)) \<longrightarrow>
            parse_file_name m = Inr (py_strip (text_before ''|'' (text_after ''File:'' m))))"
proof -
  from assms(3) have parsed: "parse_file_name m
      = Inr (py_strip (text_before ''|'' (text_before ''File:'' (text_after ''File:'' m))))"
    by (rule parse_file_name_eq)
  from assms parsed have "File_name_info
      (py_strip (text_before ''|'' (text_before ''File:'' (text_after ''File:'' m))))
      \<in> set (fst (generate_handler session final_id))"
    by (rule file_name_is_shown)
  moreover have "text_before ''|'' (text_before ''File:'' (text_after ''File:'' m))
               = text_before ''|'' (text_after ''File:'' m)"
    if "\<not> contains ''File:'' (text_before ''|'' (text_after ''File:'' m))"
    using that by (intro text_before_bar_inner) (simp_all add: contains_iff_sublist)
  ultimately show ?thesis using parsed by simp
qed

theorem file_name_between_markers_witness:
  "is_success
     ''PowerPoint generated successfully! File: Acme_20241027.pptx | Download URL (valid for 24 hours): https://x''
   \<and> contains ''File:''
     ''PowerPoint generated successfully! File: Acme_20241027.pptx | Download URL (valid for 24 hours): https://x''
   \<and> parse_file_name
     ''PowerPoint generated successfully! File: Acme_20241027.pptx | Download URL (valid for 24 hours): https://x''
       = Inr ''Acme_20241027.pptx''
   \<and> File_name_info ''Acme_20241027.pptx'' \<in> set (fst (generate_handler
       (\<lambda>q. Inr ''PowerPoint generated successfully! File: Acme_20241027.pptx | Download URL (valid for 24 hours): https://x'')
       ''ACC001''))"
proof -
  let ?m = "''PowerPoint generated successfully! File: Acme_20241027.pptx | Download URL (valid for 24 hours): https://x''"
  have a: "is_success ?m" by code_simp
  have b: "contains ''File:'' ?m" by code_simp
  have c: "py_strip (text_before ''|'' (text_before ''File:'' (text_after ''File:'' ?m)))
             = ''Acme_20241027.pptx''"
    by code_simp
  from a b file_name_between_markers [of "\<lambda>q. Inr ?m" "''ACC001''" ?m, OF refl a b]
  show ?thesis by (simp only: c)
qed

subsection \<open>C5: the download URL\<close>

text \<open>
  C5, as stated, fails: \<open>split(marker)[1]\<close> ends at the second occurrence of the marker.
  In this message the text after the first marker runs to the end and includes the second
  marker; the URL extracted is \<open>https://x\<close>.
\<close>

theorem second_marker_ends_url:
  "is_success
     ''Generated successfully. Download URL (valid for 24 hours): https://x Download URL (valid for 24 hours): https://y''
   \<and> contains url_marker
     ''Generated successfully. Download URL (valid for 24 hours): https://x Download URL (valid for 24 hours): https://y''
   \<and> parse_url
     ''Generated successfully. Download URL (valid for 24 hours): https://x Download URL (valid for 24 hours): https://y''
       = Inr ''https://x''
   \<and> py_strip (text_after url_marker
     ''Generated successfully. Download URL (valid for 24 hours): https://x Download URL (valid for 24 hours): https://y'')
       = ''https://x Download URL (valid for 24 hours): https://y''"
  by code_simp

text \<open>
  C5, amended. For a successful message that contains the URL marker, the URL extracted and
  shown as the download link is the text after the first occurrence of the marker up to its
  next occurrence, or up to the end of the message when the marker does not occur again;
  surrounding whitespace is stripped. When the marker occurs once, this is the text after the
  marker to the end of the message, as C5 says.
\<close>

theorem url_follows_marker:
  assumes "session (call_statement final_id) = Inr m"
    and "is_success m" and "contains url_marker m"
  shows "parse_url m = Inr (py_strip (text_before url_marker (text_after url_marker m)))
       \<and> Download_link (py_strip (text_before url_marker (text_after url_marker m)))
           \<in> set (fst (generate_handler session final_id))
       \<and> (\<not> contains url_marker (text_after url_marker m) \<longrightarrow>
            parse_url m = Inr (py_strip (text_after url_marker m)))"
proof -
  from assms(3) have parsed:
    "parse_url m = Inr (py_strip (text_before url_marker (text_after url_marker m)))"
    by (rule parse_url_eq)
  from assms(3) have "contains ''Download URL'' m" by (rule Download_URL_in_marker)
  with assms(1,2) have "Download_link (py_strip (text_before url_marker (text_after url_marker m)))
      \<in> set (fst (generate_handler session final_id))"
    using parsed by (rule url_is_shown)
  moreover have "text_before url_marker (text_after url_marker m) = text_after url_marker m"
    if "\<not> contains url_marker (text_after url_marker m)"
    using that by (simp add: contains_def text_before_no_occurrence)
  ultimately show ?thesis using parsed by simp
qed

theorem url_follows_marker_witness:
  "is_success
     ''PowerPoint generated successfully! File: Acme_20241027.pptx | Download URL (valid for 24 hours): https://x''
   \<and> contains url_marker
     ''PowerPoint generated successfully! File: Acme_20241027.pptx | Download URL (valid for 24 hours): https://x''
   \<and> parse_url
     ''PowerPoint generated successfully! File: Acme_20241027.pptx | Download URL (valid for 24 hours): https://x''
       = Inr ''https://x''
   \<and> Download_link ''https://x'' \<in> set (fst (generate_handler
       (\<lambda>q. Inr ''PowerPoint generated successfully! File: Acme_20241027.pptx | Download URL (valid for 24 hours): https://x'')
       ''ACC001''))"
proof -
  let ?m = "''PowerPoint generated successfully! File: Acme_20241027.pptx | Download URL (valid for 24 hours): https://x''"
  have a: "is_success ?m" by code_simp
  have b: "contains url_marker ?m" by code_simp
  have c: "py_strip (text_before url_marker (text_after url_marker ?m)) = ''https://x''"
    by code_simp
  from a b url_follows_marker [of "\<lambda>q. Inr ?m" "''ACC001''" ?m, OF refl a b]
  show ?thesis by (simp only: c)
qed

subsection \<open>C6: the dropdown label\<close>

text \<open>
  C6. Line 80 is meant to give back the identifier of the selected account (its comment
  says so, and line 92 looks the account up by it). It does not when the identifier contains
  the separator: the label of the account \<open>A - 1\<close> is cut at the first \<open>" - "\<close> and
  gives back \<open>A\<close>. With that row selected, line 92 finds no account \<open>A\<close> and the run
  ends with \<open>IndexError\<close>; when an account \<open>A\<close> exists as well, the handler runs for it
  instead of the selected one.
\<close>

theorem hyphenated_identifier_is_cut:
  "account_label \<lparr>ACCOUNT_ID = ''A - 1'', ACCOUNT_NAME = ''Acme''\<rparr> = ''A - 1 - Acme''
   \<and> extract_account_id ''A - 1 - Acme'' = Inr ''A''
   \<and> account_id \<lparr>accounts = Some [\<lparr>ACCOUNT_ID = ''A - 1'', ACCOUNT_NAME = ''Acme''\<rparr>],
        chosen = 0, manual_account_id = [], pressed = True\<rparr> = Some ''A''
   \<and> run_page (\<lambda>q. Inr ''Presentation generated successfully.'')
        \<lparr>accounts = Some [\<lparr>ACCOUNT_ID = ''A - 1'', ACCOUNT_NAME = ''Acme''\<rparr>],
         chosen = 0, manual_account_id = [], pressed = True\<rparr> = ([], Some iloc_error)
   \<and> generation_call
        \<lparr>accounts = Some [\<lparr>ACCOUNT_ID = ''A'', ACCOUNT_NAME = ''Alpha''\<rparr>,
                          \<lparr>ACCOUNT_ID = ''A - 1'', ACCOUNT_NAME = ''Acme''\<rparr>],
         chosen = 1, manual_account_id = [], pressed = True\<rparr> = Some ''A''"
  by code_simp

subsection \<open>C7: neither marker in a successful message\<close>

text \<open>
  C7. When the message counts as a success and contains neither \<open>File:\<close> nor
  \<open>Download URL\<close>, the page shows the success banner and the raw message in a text area,
  and no exception is raised.
\<close>

theorem raw_message_when_markers_absent:
  assumes "session (call_statement final_id) = Inr m"
    and "is_success m"
    and "\<not> contains ''File:'' m" and "\<not> contains ''Download URL'' m"
  shows "generate_handler session final_id = ([Success_banner, Result_text_area m], None)"
proof -
  from assms have "try_body session final_id = ([Success_banner, Result_text_area m], None)"
    by (simp add: handler_on_message show_success_no_markers)
  then show ?thesis by (rule handler_passes_clean_run)
qed

theorem raw_message_when_markers_absent_witness:
  "is_success ''Presentation generated successfully.''
   \<and> \<not> contains ''File:'' ''Presentation generated successfully.''
   \<and> \<not> contains ''Download URL'' ''Presentation generated successfully.''
   \<and> generate_handler (\<lambda>q. Inr ''Presentation generated successfully.'') ''ACC001''
       = ([Success_banner, Result_text_area ''Presentation generated successfully.''], None)"
proof -
  have a: "is_success ''Presentation generated successfully.''" by code_simp
  have b: "\<not> contains ''File:'' ''Presentation generated successfully.''" by code_simp
  have c: "\<not> contains ''Download URL'' ''Presentation generated successfully.''" by code_simp
  have d: "(\<lambda>q. Inr ''Presentation generated successfully.'' :: exn + string)
             (call_statement ''ACC001'') = Inr ''Presentation generated successfully.''"
    by simp
  from a b c raw_message_when_markers_absent [OF d a b c] show ?thesis by simp
qed

subsection \<open>C8: what the handler catches\<close>

text \<open>
  C8, as stated, fails: \<open>except Exception\<close> lets an exception outside the
  \<open>Exception\<close> hierarchy pass. When the call raises one (a \<open>KeyboardInterrupt\<close>,
  whose \<open>str\<close> is empty), it leaves the handler and nothing is shown.
\<close>

theorem base_exception_leaves_handler:
  "\<not> isinstance_Exception (Exn BaseException_only [])
   \<and> generate_handler (\<lambda>q. Inl (Exn BaseException_only [])) ''ACC001''
       = ([], Some (Exn BaseException_only []))"
  by (simp add: generate_handler_def try_body_def isinstance_Exception_def)

text \<open>
  C8, amended. When every exception the call can raise is an instance of \<open>Exception\<close>,
  no exception leaves the handler: whatever the call or the rendering of its result raises
  is caught, and the page shows what was rendered before, then the error message with
  \<open>str(e)\<close> and the troubleshooting notes. The exceptions of the rendering itself are
  always instances of \<open>Exception\<close>.
\<close>

theorem handler_catches_every_Exception:
  assumes "\<forall>e. session (call_statement final_id) = Inl e \<longrightarrow> isinstance_Exception e"
  shows "snd (generate_handler session final_id) = None
       \<and> (\<forall>shown e. try_body session final_id = (shown, Some e) \<longrightarrow>
            generate_handler session final_id
              = (shown @ Generation_error (str_of e) # troubleshooting session, None))"
proof -
  have caught: "isinstance_Exception e"
    if "try_body session final_id = (shown, Some e)" for shown e
    using try_body_raises [OF that] assms show_success_raises_Exception by blast
  have "generate_handler session final_id
          = (shown @ Generation_error (str_of e) # troubleshooting session, None)"
    if "try_body session final_id = (shown, Some e)" for shown e
    using that caught [OF that] by (rule handler_catches_Exception)
  moreover have "snd (generate_handler session final_id) = None"
  proof (cases "try_body session final_id")
    case (Pair shown raised)
    show ?thesis
    proof (cases raised)
      case None
      with Pair show ?thesis by (simp add: handler_passes_clean_run)
    next
      case (Some e)
      with Pair caught show ?thesis by (simp add: handler_catches_Exception)
    qed
  qed
  ultimately show ?thesis by blast
qed

theorem handler_catches_every_Exception_witness:
  "isinstance_Exception (Exn Exception_class ''SQL compilation error'')
   \<and> generate_handler (\<lambda>q. Inl (Exn Exception_class ''SQL compilation error'')) ''ACC001''
       = ([Generation_error ''SQL compilation error'', Troubleshooting_notes, Session_warning],
          None)
   \<and> snd (generate_handler (\<lambda>q. Inr ''Generated successfully. Download URL: https://x'')
         ''ACC001'') = None"
proof -
  have every: "\<forall>e. (\<lambda>q. Inl (Exn Exception_class ''SQL compilation error'') :: exn + string)
                  (call_statement ''ACC001'') = Inl e \<longrightarrow> isinstance_Exception e"
    by (simp add: isinstance_Exception_def)
  have body: "try_body (\<lambda>q. Inl (Exn Exception_class ''SQL compilation error'')) ''ACC001''
                = ([], Some (Exn Exception_class ''SQL compilation error''))"
    by (simp add: try_body_def)
  from handler_catches_every_Exception [OF every] body
  have "generate_handler (\<lambda>q. Inl (Exn Exception_class ''SQL compilation error'')) ''ACC001''
          = ([] @ Generation_error (str_of (Exn Exception_class ''SQL compilation error''))
               # troubleshooting (\<lambda>q. Inl (Exn Exception_class ''SQL compilation error'')), None)"
    by blast
  then have raised: "generate_handler
      (\<lambda>q. Inl (Exn Exception_class ''SQL compilation error'')) ''ACC001''
       = ([Generation_error ''SQL compilation error'', Troubleshooting_notes, Session_warning],
          None)"
    by (simp add: troubleshooting_def)
  have returns: "\<forall>e. (\<lambda>q. Inr ''Generated successfully. Download URL: https://x'' :: exn + string)
                  (call_statement ''ACC001'') = Inl e \<longrightarrow> isinstance_Exception e"
    by simp
  from handler_catches_every_Exception [OF returns]
  have "snd (generate_handler (\<lambda>q. Inr ''Generated successfully. Download URL: https://x'')
         ''ACC001'') = None"
    by (rule conjunct1)
  with raised show ?thesis by (simp add: isinstance_Exception_def)
qed

subsection \<open>C9: no call without an identifier\<close>

text \<open>
  C9. The handler never runs with an empty or missing identifier. The test of line 124
  rejects such an identifier whatever the button returns; the button is disabled exactly
  when the identifier is missing or empty, and a disabled button leaves the handler out of
  the run.
\<close>

theorem never_called_without_identifier:
  "(\<forall>final_id. generation_call f = Some final_id \<longrightarrow> final_id \<noteq> [])
   \<and> (\<forall>button final_id. guarded_call button (final_account_id f) = Some final_id \<longrightarrow>
         final_id \<noteq> [])
   \<and> (button_disabled f \<longleftrightarrow> final_account_id f = None \<or> final_account_id f = Some [])
   \<and> (button_disabled f \<longrightarrow> \<not> generate_button f \<and> generation_call f = None)
   \<and> (\<forall>session. generation_call f = None \<and> (\<exists>details. account_details f = Inr details) \<longrightarrow>
         run_page session f = ([], None))"
  by (auto simp: generation_call_def guarded_call_def generate_button_def
        button_disabled_def truthy_def run_page_def
      split: if_splits option.splits)

theorem never_called_without_identifier_witness:
  "button_disabled \<lparr>accounts = None, chosen = 0, manual_account_id = [], pressed = True\<rparr>
   \<and> generation_call \<lparr>accounts = None, chosen = 0, manual_account_id = [], pressed = True\<rparr>
       = None
   \<and> run_page (\<lambda>q. Inr ''Presentation generated successfully.'')
       \<lparr>accounts = None, chosen = 0, manual_account_id = [], pressed = True\<rparr> = ([], None)
   \<and> generation_call \<lparr>accounts = None, chosen = 0, manual_account_id = ''ACC001'',
       pressed = True\<rparr> = Some ''ACC001''
   \<and> ''ACC001'' \<noteq> []"
proof -
  let ?empty = "\<lparr>accounts = None, chosen = 0, manual_account_id = [], pressed = True\<rparr>"
  let ?typed = "\<lparr>accounts = None, chosen = 0, manual_account_id = ''ACC001'', pressed = True\<rparr>"
  have off: "button_disabled ?empty" by code_simp
  have on: "generation_call ?typed = Some ''ACC001''" by code_simp
  have details: "account_details ?empty = Inr None" by code_simp
  note empty = never_called_without_identifier [of ?empty]
  note typed = never_called_without_identifier [of ?typed]
  from empty off have none: "generation_call ?empty = None" by blast
  from empty none details
  have "run_page (\<lambda>q. Inr ''Presentation generated successfully.'') ?empty = ([], None)"
    by blast
  moreover from typed on have "''ACC001'' \<noteq> []" by blast
  ultimately show ?thesis using off on none by blast
qed

subsection \<open>C10: exceptions of the download branch\<close>

text \<open>
  C10, as stated, fails in its second case. A successful message with the full marker and
  without \<open>File:\<close> has its URL extracted and shown as a link and as code before line 165
  raises \<open>NameError\<close>: the error message comes after the download link, not instead of it.
\<close>

theorem link_shown_before_name_error:
  "is_success ''Generated successfully. Download URL (valid for 24 hours): https://x''
   \<and> contains ''Download URL''
        ''Generated successfully. Download URL (valid for 24 hours): https://x''
   \<and> \<not> contains ''File:''
        ''Generated successfully. Download URL (valid for 24 hours): https://x''
   \<and> generate_handler
        (\<lambda>q. Inr ''Generated successfully. Download URL (valid for 24 hours): https://x'')
        ''ACC001''
       = ([Success_banner, Download_heading, Download_link ''https://x'', Url_code ''https://x'',
           Snowsql_heading, Generation_error (str_of (name_error ''file_name'')),
           Troubleshooting_notes,
           Session_settings
             ''Generated successfully. Download URL (valid for 24 hours): https://x''
             ''Generated successfully. Download URL (valid for 24 hours): https://x''],
          None)"
  by code_simp

text \<open>
  C10, amended. For a successful message that contains \<open>Download URL\<close>: without the full
  marker, line 146 raises \<open>IndexError\<close>, and the page shows the success banner, the file
  name if \<open>File:\<close> occurs, and the error message; it shows neither the raw message nor a
  download link. With the full marker and without \<open>File:\<close>, the page shows the download
  link and the URL as code, then line 165 raises \<open>NameError\<close> and the page shows the error
  message; it shows neither the raw message nor the SnowSQL command.
\<close>

theorem download_branch_raises:
  assumes "session (call_statement final_id) = Inr m"
    and "is_success m" and "contains ''Download URL'' m"
  shows "(\<not> contains url_marker m \<longrightarrow>
            generate_handler session final_id
              = (Success_banner #
                   (if contains ''File:'' m
                    then [File_name_info (py_strip (text_before ''|''
                            (text_before ''File:'' (text_after ''File:'' m))))]
                    else [])
                   @ Generation_error (str_of index_error) # troubleshooting session, None)
            \<and> Result_text_area m \<notin> set (fst (generate_handler session final_id))
            \<and> (\<forall>url. Download_link url \<notin> set (fst (generate_handler session final_id))))
       \<and> (contains url_marker m \<and> \<not> contains ''File:'' m \<longrightarrow>
            generate_handler session final_id
              = ([Success_banner, Download_heading,
                  Download_link (py_strip (text_before url_marker (text_after url_marker m))),
                  Url_code (py_strip (text_before url_marker (text_after url_marker m))),
                  Snowsql_heading, Generation_error (str_of (name_error ''file_name''))]
                  @ troubleshooting session, None)
            \<and> Result_text_area m \<notin> set (fst (generate_handler session final_id)))"
proof -
  from assms have body: "try_body session final_id = show_success m"
    by (simp add: handler_on_message)
  have index: "isinstance_Exception index_error"
    by (simp add: isinstance_Exception_def index_error_def)
  have name: "isinstance_Exception (name_error ''file_name'')"
    by (simp add: isinstance_Exception_def name_error_def)
  have first: "generate_handler session final_id
              = (Success_banner #
                   (if contains ''File:'' m
                    then [File_name_info (py_strip (text_before ''|''
                            (text_before ''File:'' (text_after ''File:'' m))))]
                    else [])
                   @ Generation_error (str_of index_error) # troubleshooting session, None)"
    if "\<not> contains url_marker m"
  proof -
    from that have "parse_url m = Inl index_error" by (rule parse_url_fails)
    with assms(3) body parse_file_name_eq [of m]
    have "try_body session final_id
            = (Success_banner #
                 (if contains ''File:'' m
                  then [File_name_info (py_strip (text_before ''|''
                          (text_before ''File:'' (text_after ''File:'' m))))]
                  else []), Some index_error)"
      by (simp add: show_success_url_fails)
    from handler_catches_Exception [OF this index] show ?thesis by simp
  qed
  have second: "generate_handler session final_id
              = ([Success_banner, Download_heading,
                  Download_link (py_strip (text_before url_marker (text_after url_marker m))),
                  Url_code (py_strip (text_before url_marker (text_after url_marker m))),
                  Snowsql_heading, Generation_error (str_of (name_error ''file_name''))]
                  @ troubleshooting session, None)"
    if "contains url_marker m" and "\<not> contains ''File:'' m"
  proof -
    from that(1) have "parse_url m
        = Inr (py_strip (text_before url_marker (text_after url_marker m)))"
      by (rule parse_url_eq)
    with assms(3) that(2) body
    have "try_body session final_id
            = ([Success_banner, Download_heading,
                Download_link (py_strip (text_before url_marker (text_after url_marker m))),
                Url_code (py_strip (text_before url_marker (text_after url_marker m))),
                Snowsql_heading], Some (name_error ''file_name''))"
      by (simp add: show_success_url_only)
    from handler_catches_Exception [OF this name] show ?thesis by simp
  qed
  from first second troubleshooting_widgets show ?thesis by simp
qed

theorem download_branch_raises_witness:
  "is_success ''Generated successfully. Download URL: https://x''
   \<and> contains ''Download URL'' ''Generated successfully. Download URL: https://x''
   \<and> \<not> contains url_marker ''Generated successfully. Download URL: https://x''
   \<and> generate_handler (\<lambda>q. Inr ''Generated successfully. Download URL: https://x'') ''ACC001''
       = (Success_banner # [] @ Generation_error (str_of index_error)
            # troubleshooting (\<lambda>q. Inr ''Generated successfully. Download URL: https://x''),
          None)
   \<and> is_success ''Generated successfully. Download URL (valid for 24 hours): https://x''
   \<and> contains url_marker ''Generated successfully. Download URL (valid for 24 hours): https://x''
   \<and> \<not> contains ''File:'' ''Generated successfully. Download URL (valid for 24 hours): https://x''
   \<and> generate_handler
        (\<lambda>q. Inr ''Generated successfully. Download URL (valid for 24 hours): https://x'')
        ''ACC001''
       = ([Success_banner, Download_heading, Download_link ''https://x'', Url_code ''https://x'',
           Snowsql_heading, Generation_error (str_of (name_error ''file_name''))]
            @ troubleshooting
                (\<lambda>q. Inr ''Generated successfully. Download URL (valid for 24 hours): https://x''),
          None)"
proof -
  let ?short = "''Generated successfully. Download URL: https://x''"
  let ?full = "''Generated successfully. Download URL (valid for 24 hours): https://x''"
  have a: "is_success ?short" by code_simp
  have b: "contains ''Download URL'' ?short" by code_simp
  have c: "\<not> contains url_marker ?short" by code_simp
  have d: "\<not> contains ''File:'' ?short" by code_simp
  have a': "is_success ?full" by code_simp
  have b': "contains ''Download URL'' ?full" by code_simp
  have c': "contains url_marker ?full" by code_simp
  have d': "\<not> contains ''File:'' ?full" by code_simp
  have url: "py_strip (text_before url_marker (text_after url_marker ?full)) = ''https://x''"
    by code_simp
  note first = download_branch_raises [of "\<lambda>q. Inr ?short" "''ACC001''" ?short, OF refl a b,
      THEN conjunct1, rule_format, OF c, THEN conjunct1, unfolded if_not_P [OF d]]
  note second = download_branch_raises [of "\<lambda>q. Inr ?full" "''ACC001''" ?full, OF refl a' b',
      THEN conjunct2, rule_format, OF conjI [OF c' d'], THEN conjunct1, unfolded url]
  from a b c a' c' d' first second show ?thesis by blast
qed

end
